theory Spec2Isabelle
  imports Main "HOL-Library.Char_ord" "HOL-Library.List_Lexorder" "HOL-Library.Multiset"
begin

section \<open>Strings and the string primitives of the host language\<close>

text \<open>
  A string is a list of code units; \<open>char\<close> covers the code units below 256, ordered by
  their numeric value (\<open>Char_ord\<close>), and lists are ordered lexicographically with a proper
  prefix first (\<open>List_Lexorder\<close>), which is the order \<open>Array.prototype.sort\<close> uses on strings
  when no comparator is given.
\<close>

definition nl :: string where
  "nl = [CHR 0x0A]"

text \<open>The class \<open>\s\<close> of regular expressions, which is also what \<open>trim\<close> strips.\<close>

definition is_space :: "char \<Rightarrow> bool" where
  "is_space c \<longleftrightarrow> c \<in> {CHR 0x09, CHR 0x0A, CHR 0x0B, CHR 0x0C, CHR 0x0D, CHR 0x20, CHR 0xA0}"

text \<open>The class \<open>\d\<close>.\<close>

definition is_digit :: "char \<Rightarrow> bool" where
  "is_digit c \<longleftrightarrow> CHR ''0'' \<le> c \<and> c \<le> CHR ''9''"

definition trim :: "string \<Rightarrow> string" where
  "trim s = rev (dropWhile is_space (rev (dropWhile is_space s)))"

text \<open>\<open>s.split(c)\<close> for a one-character separator: never empty, \<open>''''\<close> gives \<open>['''']\<close>.\<close>

fun split :: "char \<Rightarrow> string \<Rightarrow> string list" where
  "split c [] = [[]]"
| "split c (x # xs) =
     (if x = c then [] # split c xs
      else (let r = split c xs in (x # hd r) # tl r))"

text \<open>\<open>xs.join(sep)\<close>.\<close>

fun join :: "string \<Rightarrow> string list \<Rightarrow> string" where
  "join sep [] = []"
| "join sep [x] = x"
| "join sep (x # y # ys) = x @ sep @ join sep (y # ys)"

text \<open>\<open>s.replace(/  +/g, ' ')\<close>: every run of two or more spaces becomes one space.\<close>

fun collapse_spaces :: "string \<Rightarrow> string" where
  "collapse_spaces (a # b # s) =
     (if a = CHR '' '' \<and> b = CHR '' '' then collapse_spaces (b # s)
      else a # collapse_spaces (b # s))"
| "collapse_spaces s = s"

text \<open>\<open>s.replace(/ +,/g, ', ')\<close>: a run of spaces that ends at a comma becomes \<open>'', ''\<close>
  together with the comma; a run that ends elsewhere is kept. The scan carries the length
  of the run of spaces it is in.\<close>

fun pending_spaces :: "nat \<Rightarrow> string \<Rightarrow> string" where
  "pending_spaces n [] = replicate n CHR '' ''"
| "pending_spaces n (a # s) =
     (if a = CHR '' '' then pending_spaces (Suc n) s
      else if a = CHR '','' \<and> 0 < n then '', '' @ pending_spaces 0 s
      else replicate n CHR '' '' @ a # pending_spaces 0 s)"

definition spaces_before_comma :: "string \<Rightarrow> string" where
  "spaces_before_comma s = pending_spaces 0 s"

section \<open>Data model\<close>

datatype SelectorType = Class | Id | Hash

text \<open>The option \<open>selector\<close> is one strategy or an array of strategies.\<close>

datatype selector_option = Single SelectorType | Multiple "SelectorType list"

record PluginOptions =
  html :: string
  selector_opt :: selector_option
  styleTags :: bool
  indent :: nat

record Style =
  selector :: string
  props :: "string list"

section \<open>Formatting of selectors and properties\<close>

text \<open>\<open>formatClass\<close>: trim, put a dot in front unless the text is empty or starts with one,
  collapse runs of spaces, turn every space into a dot.\<close>

definition formatClass :: "string \<Rightarrow> string" where
  "formatClass s =
     map (\<lambda>c. if c = CHR '' '' then CHR ''.'' else c)
       (collapse_spaces
         (case trim s of [] \<Rightarrow> [] | c # t \<Rightarrow> if c \<noteq> CHR ''.'' then CHR ''.'' # c # t else c # t))"

definition formatId :: "string \<Rightarrow> string" where
  "formatId s =
     (case trim s of [] \<Rightarrow> [] | c # t \<Rightarrow> if c \<noteq> CHR ''#'' then CHR ''#'' # c # t else c # t)"

definition formatSelector :: "string \<Rightarrow> string" where
  "formatSelector s =
     collapse_spaces
       (spaces_before_comma
         (concat (map (\<lambda>c. if c = CHR ''>'' then '' > '' else [c]) (trim s))))"

text \<open>\<open>formatProps\<close>: the argument is \<open>None\<close> for \<open>undefined\<close>. The fold pushes one entry for
  every fragment that is not blank; the entry is the fragment split at every colon, each
  piece trimmed, joined with \<open>'': ''\<close>.\<close>

definition formatProps :: "string option \<Rightarrow> string list" where
  "formatProps p =
     (case p of
        None \<Rightarrow> []
      | Some text \<Rightarrow>
          sort (foldl (\<lambda>list prop.
                  if trim prop \<noteq> [] then list @ [join '': '' (map trim (split CHR '':'' prop))]
                  else list)
                [] (split CHR '';'' text)))"

section \<open>Selector generation\<close>

text \<open>
  The random source is the sequence of strings that successive evaluations of
  \<open>Math.random().toString(36).slice(2)\<close> give; the state is the number of draws made so far.
  \<open>generateHash\<close> draws until a string does not start with a digit, so it need not return:
  \<open>None\<close> is the run that draws forever.
\<close>

type_synonym random_source = "nat \<Rightarrow> string"

definition template_test :: "string \<Rightarrow> bool" where
  "template_test s = (case s of [] \<Rightarrow> False | c # _ \<Rightarrow> is_digit c)"

partial_function (option) generateHash :: "random_source \<Rightarrow> nat \<Rightarrow> (string \<times> nat) option" where
  "generateHash rnd i =
     (let hash = rnd i in
      if template_test hash then generateHash rnd (Suc i) else Some (hash, Suc i))"

text \<open>The callback of \<open>reduce\<close>. The condition of the outer conditional expression is
  \<open>name || type === 'class'\<close>.\<close>

fun reduce_types ::
  "string \<Rightarrow> string \<Rightarrow> random_source \<Rightarrow> SelectorType list \<Rightarrow> string \<Rightarrow> nat \<Rightarrow> (string \<times> nat) option"
where
  "reduce_types className ident rnd [] name i = Some (name, i)"
| "reduce_types className ident rnd (t # ts) name i =
     (if name \<noteq> [] \<or> t = Class then
        reduce_types className ident rnd ts (formatClass className) i
      else if t = Id then
        reduce_types className ident rnd ts (formatId ident) i
      else
        (case generateHash rnd i of
           None \<Rightarrow> None
         | Some (hash, j) \<Rightarrow> reduce_types className ident rnd ts (CHR ''.'' # hash) j))"

definition types_of :: "selector_option \<Rightarrow> SelectorType list" where
  "types_of sel = (case sel of Single t \<Rightarrow> [t] | Multiple ts \<Rightarrow> ts)"

definition generateSelector ::
  "string \<Rightarrow> string \<Rightarrow> selector_option \<Rightarrow> random_source \<Rightarrow> nat \<Rightarrow> (string \<times> nat) option"
where
  "generateSelector className ident sel rnd i =
     reduce_types className ident rnd (types_of sel) [] i"

section \<open>Comparison of selectors and merging of properties\<close>

text \<open>The test \<open>/[\s>+~(),]/\<close>.\<close>

definition has_combinator :: "string \<Rightarrow> bool" where
  "has_combinator s \<longleftrightarrow>
     (\<exists>c \<in> set s. is_space c \<or> c \<in> {CHR ''>'', CHR ''+'', CHR ''~'', CHR ''('', CHR '')'', CHR '',''})"

definition compareSelector :: "string \<Rightarrow> string \<Rightarrow> bool" where
  "compareSelector selector1 selector2 =
     (if has_combinator selector1 \<or> has_combinator selector2 then selector1 = selector2
      else join ''.'' (sort (split CHR ''.'' selector1)) = join ''.'' (sort (split CHR ''.'' selector2)))"

definition mergeProps :: "string list \<Rightarrow> string list \<Rightarrow> string list" where
  "mergeProps props1 props2 =
     sort (foldl (\<lambda>ps prop. if prop \<in> set ps then ps else ps @ [prop]) props1 props2)"

section \<open>Extraction\<close>

text \<open>
  The HTML tree and the CSS parser are collaborators. An element carries its attributes
  and its text content; a parsed document is what the two queries of \<open>extractStyles\<close>
  give on it. A parsed style sheet is the list of rules in the order \<open>walkRules\<close> visits
  them, each with its child nodes; the parser may throw instead.
\<close>

record element =
  attributes :: "string \<rightharpoonup> string"
  textContent :: string

record document =
  with_style_attr :: "element list"
  style_elements :: "element list"

datatype child_node = Decl string string | Other

record css_rule =
  rule_selector :: string
  nodes :: "child_node list"

datatype error = CssSyntaxError string

record collaborators =
  htmlParse :: "string \<Rightarrow> document"
  parse :: "string \<Rightarrow> error + css_rule list"

text \<open>\<open>el.attributes.x || ''\<close>.\<close>

definition attr_or_empty :: "element \<Rightarrow> string \<Rightarrow> string" where
  "attr_or_empty el k = (case attributes el k of None \<Rightarrow> [] | Some v \<Rightarrow> v)"

fun findIndex :: "('a \<Rightarrow> bool) \<Rightarrow> 'a list \<Rightarrow> nat option" where
  "findIndex P [] = None"
| "findIndex P (x # xs) = (if P x then Some 0 else map_option Suc (findIndex P xs))"

text \<open>The body both loops share: look for the first entry with an equivalent selector;
  merge into it, or push a new entry.\<close>

definition merge_into :: "Style list \<Rightarrow> string \<Rightarrow> string list \<Rightarrow> Style list" where
  "merge_into result v ps =
     (case findIndex (\<lambda>style. compareSelector (selector style) v) result of
        Some index \<Rightarrow> result[index := (result ! index)\<lparr>props := mergeProps (props (result ! index)) ps\<rparr>]
      | None \<Rightarrow> result @ [\<lparr>selector = v, props = ps\<rparr>])"

text \<open>The loop over the elements that have a \<open>style\<close> attribute.\<close>

fun inline_loop ::
  "selector_option \<Rightarrow> random_source \<Rightarrow> element list \<Rightarrow> Style list \<Rightarrow> nat \<Rightarrow> (Style list \<times> nat) option"
where
  "inline_loop sel rnd [] result i = Some (result, i)"
| "inline_loop sel rnd (el # els) result i =
     (case generateSelector (attr_or_empty el ''class'') (attr_or_empty el ''id'') sel rnd i of
        None \<Rightarrow> None
      | Some (v, j) \<Rightarrow>
          if v \<noteq> [] then
            inline_loop sel rnd els (merge_into result v (formatProps (attributes el ''style''))) j
          else inline_loop sel rnd els result j)"

text \<open>The callback of \<open>walkRules\<close>, over the rules of one style sheet.\<close>

definition decl_props :: "child_node list \<Rightarrow> string list" where
  "decl_props ns = concat (map (\<lambda>n. case n of Decl p v \<Rightarrow> [p @ '': '' @ v] | Other \<Rightarrow> []) ns)"

fun walkRules :: "css_rule list \<Rightarrow> Style list \<Rightarrow> Style list" where
  "walkRules [] result = result"
| "walkRules (rule # rules) result =
     walkRules rules (merge_into result (formatSelector (rule_selector rule)) (decl_props (nodes rule)))"

text \<open>The loop over the \<open>style\<close> elements; a parser failure leaves the loop and the function.\<close>

fun style_loop :: "(string \<Rightarrow> error + css_rule list) \<Rightarrow> element list \<Rightarrow> Style list \<Rightarrow> error + Style list" where
  "style_loop prs [] result = Inr result"
| "style_loop prs (el # els) result =
     (case prs (textContent el) of
        Inl e \<Rightarrow> Inl e
      | Inr rules \<Rightarrow> style_loop prs els (walkRules rules result))"

text \<open>\<open>extractStyles\<close>: \<open>None\<close> when the hash loop never returns, \<open>Some (Inl e)\<close> when the CSS
  parser throws \<open>e\<close>, \<open>Some (Inr result)\<close> when the function returns \<open>result\<close>.\<close>

definition extractStyles ::
  "collaborators \<Rightarrow> random_source \<Rightarrow> PluginOptions \<Rightarrow> (error + Style list) option"
where
  "extractStyles env rnd options =
     (let context = htmlParse env (html options) in
      case inline_loop (selector_opt options) rnd (with_style_attr context) [] 0 of
        None \<Rightarrow> None
      | Some (result, _) \<Rightarrow>
          if styleTags options then Some (style_loop (parse env) (style_elements context) result)
          else Some (Inr result))"

section \<open>Serialization\<close>

fun format_lines :: "Style list \<Rightarrow> nat \<Rightarrow> string list" where
  "format_lines [] n = []"
| "format_lines (s # styles) n =
     (selector s @ '' {'') # map (\<lambda>prop. replicate n CHR '' '' @ prop @ '';'') (props s)
       @ [''}'' @ nl] @ format_lines styles n"

definition format :: "Style list \<Rightarrow> nat \<Rightarrow> string" where
  "format styles n = join nl (format_lines styles n)"

text \<open>What the plugin computes: \<open>format(extractStyles(options), options.indent)\<close>.\<close>

definition extract_css ::
  "collaborators \<Rightarrow> random_source \<Rightarrow> PluginOptions \<Rightarrow> (error + string) option"
where
  "extract_css env rnd options =
     (case extractStyles env rnd options of
        None \<Rightarrow> None
      | Some (Inl e) \<Rightarrow> Some (Inl e)
      | Some (Inr styles) \<Rightarrow> Some (Inr (format styles (indent options))))"

section \<open>Notions used to state the properties\<close>

text \<open>A list of selectors in which no two entries are equivalent for \<open>compareSelector\<close>,
  and the accumulated list of rules read through its selectors.\<close>

fun inequivalent :: "string list \<Rightarrow> bool" where
  "inequivalent [] = True"
| "inequivalent (a # as) = ((\<forall>b \<in> set as. \<not> compareSelector a b) \<and> inequivalent as)"

definition no_equivalent_pair :: "Style list \<Rightarrow> bool" where
  "no_equivalent_pair result = inequivalent (map selector result)"

text \<open>A random source that always gives the empty string, for runs that never draw.\<close>

definition no_draws :: random_source where
  "no_draws i = []"

text \<open>The scenario of the README: one element with a class and two declarations.\<close>

definition button_html :: string where
  \<open>button_html = ''<div style="color: red; margin: 10px;" class="button">''\<close>

definition button_document :: document where
  "button_document =
     \<lparr>with_style_attr =
        [\<lparr>attributes = [''style'' \<mapsto> ''color: red; margin: 10px;'', ''class'' \<mapsto> ''button''],
          textContent = []\<rparr>],
      style_elements = []\<rparr>"

definition button_env :: "(string \<Rightarrow> error + css_rule list) \<Rightarrow> collaborators" where
  "button_env prs =
     \<lparr>htmlParse = (\<lambda>h. if h = button_html then button_document
                       else \<lparr>with_style_attr = [], style_elements = []\<rparr>),
      parse = prs\<rparr>"

text \<open>A document with one styled element and one \<open>style\<close> element whose content the CSS
  parser rejects.\<close>

definition broken_document :: document where
  "broken_document =
     \<lparr>with_style_attr =
        [\<lparr>attributes = [''style'' \<mapsto> ''color: red'', ''class'' \<mapsto> ''test''], textContent = []\<rparr>],
      style_elements = [\<lparr>attributes = Map.empty, textContent = ''.a {''\<rparr>]\<rparr>"

definition broken_env :: collaborators where
  "broken_env =
     \<lparr>htmlParse = (\<lambda>h. broken_document),
      parse = (\<lambda>css. if css = ''.a {'' then Inl (CssSyntaxError ''Unclosed block'') else Inr [])\<rparr>"

definition broken_options :: PluginOptions where
  "broken_options = \<lparr>html = [], selector_opt = Single Class, styleTags = True, indent = 2\<rparr>"



text \<open>The pattern \<open>^\.[a-z][a-z0-9]*$\<close>, and the strings of lowercase letters and digits.\<close>

definition is_lower :: "char \<Rightarrow> bool" where
  "is_lower c \<longleftrightarrow> CHR ''a'' \<le> c \<and> c \<le> CHR ''z''"

definition lower_alnum :: "string \<Rightarrow> bool" where
  "lower_alnum s = list_all (\<lambda>c. is_lower c \<or> is_digit c) s"

definition hash_pattern :: "string \<Rightarrow> bool" where
  "hash_pattern s =
     (case s of
        d # c # t \<Rightarrow> d = CHR ''.'' \<and> is_lower c \<and> lower_alnum t
      | _ \<Rightarrow> False)"

text \<open>A random source whose first draw is the empty string, which is what
  \<open>toString(36).slice(2)\<close> gives when \<open>Math.random()\<close> is 0 (the number 0 is written
  \<open>0\<close>); the later draws are a string that starts with a letter.\<close>

definition zero_draw_source :: random_source where
  "zero_draw_source i = (if i = 0 then [] else ''k9x2p7q1'')"

text \<open>Documents given by the list of their styled elements, without style elements; a
  collaborator that reads the same document from every text, and one that reads a
  document from a table of two.\<close>

definition styled_only :: "element list \<Rightarrow> document" where
  "styled_only els = \<lparr>with_style_attr = els, style_elements = []\<rparr>"

definition one_document :: "element list \<Rightarrow> collaborators" where
  "one_document els = \<lparr>htmlParse = (\<lambda>text. styled_only els), parse = (\<lambda>css. Inr [])\<rparr>"

definition two_documents :: "string \<Rightarrow> element list \<Rightarrow> element list \<Rightarrow> collaborators" where
  "two_documents h els els' =
     \<lparr>htmlParse = (\<lambda>text. if text = h then styled_only els else styled_only els'),
      parse = (\<lambda>css. Inr [])\<rparr>"

text \<open>The element of the test of the hash strategy: a style attribute, no class, no id.\<close>

definition padding_html :: string where
  \<open>padding_html = ''<div style="padding: 5px;">Hello</div>''\<close>

definition padding_element :: element where
  "padding_element = \<lparr>attributes = [''style'' \<mapsto> ''padding: 5px;''], textContent = ''Hello''\<rparr>"

text \<open>Two elements of one class; the first repeats a declaration.\<close>

definition repeating_element :: element where
  "repeating_element =
     \<lparr>attributes = [''class'' \<mapsto> ''x'', ''style'' \<mapsto> ''color:red;color:red''], textContent = []\<rparr>"

definition plain_element :: element where
  "plain_element =
     \<lparr>attributes = [''class'' \<mapsto> ''x'', ''style'' \<mapsto> ''margin:0''], textContent = []\<rparr>"

definition repeating_html :: string where
  \<open>repeating_html = ''<p class="x" style="color:red;color:red"></p>''\<close>

definition repeating_first_html :: string where
  \<open>repeating_first_html =
     ''<p class="x" style="color:red;color:red"></p><p class="x" style="margin:0"></p>''\<close>

definition repeating_last_html :: string where
  \<open>repeating_last_html =
     ''<p class="x" style="margin:0"></p><p class="x" style="color:red;color:red"></p>''\<close>

section \<open>Lemmas about the string primitives\<close>

lemma split_not_Nil [simp]: "split c s \<noteq> []"
  by (induction s) (auto simp: Let_def)

lemma split_no_sep: "x \<in> set (split c s) \<Longrightarrow> c \<notin> set x"
proof (induction s arbitrary: x)
  case Nil
  then show ?case by simp
next
  case (Cons a s)
  show ?case
  proof (cases "a = c")
    case True
    with Cons show ?thesis by auto
  next
    case False
    have hd_in: "hd (split c s) \<in> set (split c s)" by simp
    from Cons.prems False have "x = a # hd (split c s) \<or> x \<in> set (tl (split c s))"
      by (simp add: Let_def)
    then show ?thesis
    proof
      assume "x = a # hd (split c s)"
      with False Cons.IH [OF hd_in] show ?thesis by auto
    next
      assume "x \<in> set (tl (split c s))"
      then have "x \<in> set (split c s)" by (meson list.set_sel(2) split_not_Nil)
      then show ?thesis by (rule Cons.IH)
    qed
  qed
qed

lemma split_single: "c \<notin> set x \<Longrightarrow> split c x = [x]"
  by (induction x) (auto simp: Let_def)

lemma split_append_sep: "c \<notin> set x \<Longrightarrow> split c (x @ c # s) = x # split c s"
  by (induction x) (auto simp: Let_def)

lemma split_join:
  "xs \<noteq> [] \<Longrightarrow> \<forall>x \<in> set xs. c \<notin> set x \<Longrightarrow> split c (join [c] xs) = xs"
  by (induction "[c]" xs rule: join.induct) (auto simp: split_single split_append_sep)

lemma join_Cons: "ys \<noteq> [] \<Longrightarrow> join sep (x # ys) = x @ sep @ join sep ys"
  by (cases ys) auto

lemma join_append:
  "xs \<noteq> [] \<Longrightarrow> ys \<noteq> [] \<Longrightarrow> join sep (xs @ ys) = join sep xs @ sep @ join sep ys"
proof (induction xs)
  case Nil
  then show ?case by simp
next
  case (Cons a xs)
  show ?case
  proof (cases "xs = []")
    case True
    with Cons.prems show ?thesis by (simp add: join_Cons)
  next
    case False
    with Cons show ?thesis by (simp add: join_Cons)
  qed
qed

lemma join_map_last: "join sep (map f ps @ [z]) = concat (map (\<lambda>p. f p @ sep) ps) @ z"
  by (induction ps) (auto simp: join_Cons)

section \<open>The serializer\<close>

lemma format_lines_Nil_iff: "format_lines styles n = [] \<longleftrightarrow> styles = []"
  by (cases styles) auto

lemma format_Cons:
  "format (s # styles) n =
     selector s @ '' {'' @ nl
       @ concat (map (\<lambda>prop. replicate n CHR '' '' @ prop @ '';'' @ nl) (props s))
       @ ''}'' @ nl @ (if styles = [] then [] else nl @ format styles n)"
proof -
  let ?f = "\<lambda>prop. replicate n CHR '' '' @ prop @ '';''"
  let ?block = "map ?f (props s) @ [''}'' @ nl]"
  have block: "join nl ?block = concat (map (\<lambda>p. ?f p @ nl) (props s)) @ ''}'' @ nl"
    by (rule join_map_last)
  have "format (s # styles) n = (selector s @ '' {'') @ nl @ join nl (?block @ format_lines styles n)"
    by (simp add: format_def join_Cons)
  also have "join nl (?block @ format_lines styles n) =
      join nl ?block @ (if styles = [] then [] else nl @ format styles n)"
  proof (cases "styles = []")
    case True
    then show ?thesis by simp
  next
    case False
    then have "format_lines styles n \<noteq> []"
      by (simp add: format_lines_Nil_iff)
    then have "join nl (?block @ format_lines styles n) =
        join nl ?block @ nl @ join nl (format_lines styles n)"
      by (intro join_append) simp_all
    with False show ?thesis
      by (simp add: format_def)
  qed
  finally show ?thesis
    unfolding block by simp
qed

lemma button_css:
  "extract_css (button_env prs) rnd
      \<lparr>html = button_html, selector_opt = Single Class, styleTags = False, indent = 2\<rparr>
   = Some (Inr (''.button {'' @ nl @ ''  color: red;'' @ nl @ ''  margin: 10px;'' @ nl @ ''}'' @ nl))"
  by (simp add: extract_css_def extractStyles_def button_env_def button_document_def
      generateSelector_def types_of_def attr_or_empty_def formatClass_def formatProps_def
      trim_def is_space_def merge_into_def format_def nl_def eval_nat_numeral)

text \<open>
  C9. The serializer writes the rules in order. A rule is written as its selector followed
  by \<open>'' {''\<close> and a line end, then each of its properties after \<open>n\<close> spaces and before
  \<open>'';''\<close> and a line end, then \<open>''}''\<close> and a line end; one more line end (a blank line)
  stands between a rule and the next one. A rule without properties is written as its
  opening line and its closing line. The element
  \<open><div style="color: red; margin: 10px;" class="button">\<close>, extracted with the strategy
  \<open>class\<close> and serialized with the indent 2, gives the text of the scenario.
\<close>

theorem format_writes_every_rule:
  "format [] n = []
   \<and> format (s # styles) n =
       selector s @ '' {'' @ nl
         @ concat (map (\<lambda>prop. replicate n CHR '' '' @ prop @ '';'' @ nl) (props s))
         @ ''}'' @ nl @ (if styles = [] then [] else nl @ format styles n)
   \<and> format [\<lparr>selector = sel, props = []\<rparr>] n = sel @ '' {'' @ nl @ ''}'' @ nl
   \<and> extract_css (button_env prs) rnd
        \<lparr>html = button_html, selector_opt = Single Class, styleTags = False, indent = 2\<rparr>
       = Some (Inr (''.button {'' @ nl @ ''  color: red;'' @ nl @ ''  margin: 10px;'' @ nl
                     @ ''}'' @ nl))"
proof -
  have "format [] n = []"
    by (simp add: format_def)
  moreover have "format [\<lparr>selector = sel, props = []\<rparr>] n = sel @ '' {'' @ nl @ ''}'' @ nl"
    by (simp add: format_Cons)
  ultimately show ?thesis
    using format_Cons [of s styles n] button_css [of prs rnd] by blast
qed

section \<open>The comparator\<close>

lemma join_sorted_tokens_eq:
  "join ''.'' (sort (split CHR ''.'' a)) = join ''.'' (sort (split CHR ''.'' b))
     \<longleftrightarrow> sort (split CHR ''.'' a) = sort (split CHR ''.'' b)"
proof
  assume eq: "join ''.'' (sort (split CHR ''.'' a)) = join ''.'' (sort (split CHR ''.'' b))"
  have tok: "sort (split CHR ''.'' s) \<noteq> []
      \<and> (\<forall>x \<in> set (sort (split CHR ''.'' s)). CHR ''.'' \<notin> set x)" for s
  proof -
    have "length (sort (split CHR ''.'' s)) \<noteq> 0"
      by simp
    then have "sort (split CHR ''.'' s) \<noteq> []"
      by (simp only: length_0_conv not_False_eq_True)
    then show ?thesis
      using split_no_sep [of _ "CHR ''.''" s] by auto
  qed
  have "split CHR ''.'' (join ''.'' (sort (split CHR ''.'' s))) = sort (split CHR ''.'' s)" for s
    using tok [of s] split_join [of "sort (split CHR ''.'' s)" "CHR ''.''"] by simp
  with eq show "sort (split CHR ''.'' a) = sort (split CHR ''.'' b)" by metis
qed simp

lemma compareSelector_sym: "compareSelector a b = compareSelector b a"
  by (auto simp: compareSelector_def)

text \<open>
  C4. When one of the two selectors holds a white-space character or one of
  \<open>> + ~ ( ) ,\<close> the comparator answers whether the two texts are identical; otherwise it
  answers whether the sorted lists of their dot-separated tokens are equal, so that
  \<open>.a.b\<close> and \<open>.b.a\<close> are equivalent. The answer does not depend on the order of the two
  arguments.
\<close>

theorem compareSelector_rule:
  "(has_combinator A \<or> has_combinator B \<longrightarrow> compareSelector A B = (A = B))
   \<and> (\<not> has_combinator A \<and> \<not> has_combinator B \<longrightarrow>
        compareSelector A B = (sort (split CHR ''.'' A) = sort (split CHR ''.'' B)))
   \<and> compareSelector A B = compareSelector B A
   \<and> compareSelector ''.a.b'' ''.b.a''"
proof -
  have "compareSelector ''.a.b'' ''.b.a''"
    by (simp add: compareSelector_def has_combinator_def is_space_def)
  then show ?thesis
    using compareSelector_sym [of A B] join_sorted_tokens_eq [of A B]
    by (simp add: compareSelector_def)
qed

theorem compareSelector_rule_witness:
  "has_combinator ''.a > .b'' \<and> \<not> compareSelector ''.a > .b'' ''.b > .a''
   \<and> \<not> has_combinator ''.x.y'' \<and> \<not> has_combinator ''.y.x''
   \<and> compareSelector ''.x.y'' ''.y.x''
   \<and> sort (split CHR ''.'' ''.x.y'') = sort (split CHR ''.'' ''.y.x'')"
  using compareSelector_rule [of "''.a > .b''" "''.b > .a''"]
    compareSelector_rule [of "''.x.y''" "''.y.x''"]
  by (simp add: has_combinator_def is_space_def)

section \<open>The accumulated list of rules\<close>

lemma compareSelector_refl: "compareSelector a a"
  by (simp add: compareSelector_def)

lemma compareSelector_trans:
  "compareSelector a b \<Longrightarrow> compareSelector b c \<Longrightarrow> compareSelector a c"
  by (auto simp: compareSelector_def split: if_splits)

lemma findIndex_None: "findIndex P xs = None \<longleftrightarrow> (\<forall>x \<in> set xs. \<not> P x)"
  by (induction xs) auto

lemma findIndex_Some:
  "findIndex P xs = Some k \<Longrightarrow> k < length xs \<and> P (xs ! k) \<and> (\<forall>j<k. \<not> P (xs ! j))"
proof (induction xs arbitrary: k)
  case Nil
  then show ?case by simp
next
  case (Cons x xs)
  then show ?case
    by (auto split: if_splits simp: nth_Cons split: nat.splits)
qed

lemma inequivalent_snoc:
  "inequivalent (as @ [v]) \<longleftrightarrow> inequivalent as \<and> (\<forall>a \<in> set as. \<not> compareSelector a v)"
  by (induction as) auto

lemma selectors_merge_into:
  "map selector (merge_into result v ps) =
     (if \<exists>s \<in> set result. compareSelector (selector s) v then map selector result
      else map selector result @ [v])"
proof (cases "findIndex (\<lambda>style. compareSelector (selector style) v) result")
  case None
  then have "\<forall>s \<in> set result. \<not> compareSelector (selector s) v"
    by (simp add: findIndex_None)
  with None show ?thesis
    by (simp add: merge_into_def)
next
  case (Some k)
  from findIndex_Some [OF Some]
  have k: "k < length result" "compareSelector (selector (result ! k)) v"
    by auto
  then have "\<exists>s \<in> set result. compareSelector (selector s) v"
    using nth_mem by blast
  moreover have "map selector (result[k := (result ! k)\<lparr>props := q\<rparr>]) = map selector result" for q
    by (simp add: map_update list_update_same_conv k(1))
  ultimately show ?thesis
    using Some by (simp add: merge_into_def)
qed

lemma merge_into_preserves:
  "no_equivalent_pair result \<Longrightarrow> no_equivalent_pair (merge_into result v ps)"
  by (auto simp: no_equivalent_pair_def selectors_merge_into inequivalent_snoc)

lemma walkRules_preserves:
  "no_equivalent_pair result \<Longrightarrow> no_equivalent_pair (walkRules rules result)"
  by (induction rules arbitrary: result) (auto simp: merge_into_preserves)

lemma style_loop_preserves:
  "no_equivalent_pair result \<Longrightarrow> style_loop prs els result = Inr result'
     \<Longrightarrow> no_equivalent_pair result'"
proof (induction els arbitrary: result)
  case Nil
  then show ?case by simp
next
  case (Cons el els)
  then obtain rules where rules: "prs (textContent el) = Inr rules"
    and rest: "style_loop prs els (walkRules rules result) = Inr result'"
    by (auto split: sum.splits)
  from Cons.prems(1) have "no_equivalent_pair (walkRules rules result)"
    by (rule walkRules_preserves)
  then show ?case using rest by (rule Cons.IH)
qed

lemma inline_loop_preserves:
  "no_equivalent_pair result \<Longrightarrow> inline_loop sel rnd els result i = Some (result', j)
     \<Longrightarrow> no_equivalent_pair result'"
proof (induction els arbitrary: result i)
  case Nil
  then show ?case by simp
next
  case (Cons el els)
  then obtain v k where
    v: "generateSelector (attr_or_empty el ''class'') (attr_or_empty el ''id'') sel rnd i = Some (v, k)"
    by (auto split: option.splits)
  show ?case
  proof (cases "v = []")
    case True
    with Cons.prems v have "inline_loop sel rnd els result k = Some (result', j)" by simp
    with Cons.prems(1) show ?thesis by (rule Cons.IH)
  next
    case False
    let ?r = "merge_into result v (formatProps (attributes el ''style''))"
    from False Cons.prems v have "inline_loop sel rnd els ?r k = Some (result', j)" by simp
    moreover from Cons.prems(1) have "no_equivalent_pair ?r" by (rule merge_into_preserves)
    ultimately show ?thesis by (rule Cons.IH [rotated])
  qed
qed

text \<open>The accumulator after a prefix of the input is the accumulator the loop continues
  from, so a statement about the result of a loop on any input is a statement about every
  accumulator met on the way.\<close>

lemma inline_loop_append:
  "inline_loop sel rnd (els @ els') result i =
     (case inline_loop sel rnd els result i of
        None \<Rightarrow> None
      | Some (result', j) \<Rightarrow> inline_loop sel rnd els' result' j)"
  by (induction els arbitrary: result i) (auto split: option.splits)

lemma walkRules_append:
  "walkRules (rules @ rules') result = walkRules rules' (walkRules rules result)"
  by (induction rules arbitrary: result) auto

lemma style_loop_append:
  "style_loop prs (els @ els') result =
     (case style_loop prs els result of
        Inl e \<Rightarrow> Inl e
      | Inr result' \<Rightarrow> style_loop prs els' result')"
  by (induction els arbitrary: result) (auto split: sum.splits)

lemma extractStyles_preserves:
  "extractStyles env rnd options = Some (Inr result) \<Longrightarrow> no_equivalent_pair result"
proof -
  assume ex: "extractStyles env rnd options = Some (Inr result)"
  have empty: "no_equivalent_pair []"
    by (simp add: no_equivalent_pair_def)
  let ?doc = "htmlParse env (html options)"
  from ex obtain r j where
    inl: "inline_loop (selector_opt options) rnd (with_style_attr ?doc) [] 0 = Some (r, j)"
    by (auto simp: extractStyles_def Let_def split: option.splits)
  from empty inl have r: "no_equivalent_pair r"
    by (rule inline_loop_preserves)
  show ?thesis
  proof (cases "styleTags options")
    case True
    with ex inl have "style_loop (parse env) (style_elements ?doc) r = Inr result"
      by (simp add: extractStyles_def Let_def)
    with r show ?thesis by (rule style_loop_preserves)
  next
    case False
    with ex inl r show ?thesis
      by (simp add: extractStyles_def Let_def)
  qed
qed

text \<open>
  C5. The accumulated list of rules never holds two entries with equivalent selectors.
  The list is empty at the start. Folding a pair of a selector and properties into a list
  without equivalent entries gives a list without equivalent entries: when an entry is
  equivalent to the new selector the selectors of the list stay as they are (the
  properties of the first such entry are replaced by their merge with the new ones, at
  its place, and nothing is appended), and only when no entry is equivalent the new
  selector is appended at the end. Hence the loop over the
  styled elements, the walk over the rules of a style sheet, the loop over the style
  elements, each started from any such list and run on any input, and the whole
  extraction, end with such a list.
\<close>

theorem accumulated_rules_pairwise_inequivalent:
  "no_equivalent_pair []
   \<and> map selector (merge_into result v ps) =
       (if \<exists>s \<in> set result. compareSelector (selector s) v then map selector result
        else map selector result @ [v])
   \<and> (no_equivalent_pair result \<longrightarrow>
         no_equivalent_pair (merge_into result v ps)
       \<and> (\<forall>result' j. inline_loop sel rnd els result i = Some (result', j)
             \<longrightarrow> no_equivalent_pair result')
       \<and> no_equivalent_pair (walkRules rules result)
       \<and> (\<forall>result'. style_loop prs tags result = Inr result' \<longrightarrow> no_equivalent_pair result'))
   \<and> (\<forall>final. extractStyles env rnd options = Some (Inr final) \<longrightarrow> no_equivalent_pair final)
   \<and> (\<forall>k. findIndex (\<lambda>style. compareSelector (selector style) v) result = Some k \<longrightarrow>
         k < length result
       \<and> compareSelector (selector (result ! k)) v
       \<and> (\<forall>j<k. \<not> compareSelector (selector (result ! j)) v)
       \<and> merge_into result v ps
           = result[k := (result ! k)\<lparr>props := mergeProps (props (result ! k)) ps\<rparr>])"
proof -
  have "no_equivalent_pair []"
    by (simp add: no_equivalent_pair_def)
  then have invariant: "no_equivalent_pair []
     \<and> map selector (merge_into result v ps) =
         (if \<exists>s \<in> set result. compareSelector (selector s) v then map selector result
          else map selector result @ [v])
     \<and> (no_equivalent_pair result \<longrightarrow>
           no_equivalent_pair (merge_into result v ps)
         \<and> (\<forall>result' j. inline_loop sel rnd els result i = Some (result', j)
               \<longrightarrow> no_equivalent_pair result')
         \<and> no_equivalent_pair (walkRules rules result)
         \<and> (\<forall>result'. style_loop prs tags result = Inr result' \<longrightarrow> no_equivalent_pair result'))
     \<and> (\<forall>final. extractStyles env rnd options = Some (Inr final) \<longrightarrow> no_equivalent_pair final)"
    using selectors_merge_into [of result v ps] merge_into_preserves [of result v ps]
      inline_loop_preserves [of result sel rnd els i] walkRules_preserves [of result rules]
      style_loop_preserves [of result prs tags] extractStyles_preserves [of env rnd options]
    by blast
  have "k < length result
       \<and> compareSelector (selector (result ! k)) v
       \<and> (\<forall>j<k. \<not> compareSelector (selector (result ! j)) v)
       \<and> merge_into result v ps
           = result[k := (result ! k)\<lparr>props := mergeProps (props (result ! k)) ps\<rparr>]"
    if "findIndex (\<lambda>style. compareSelector (selector style) v) result = Some k" for k
    using findIndex_Some [OF that] that by (simp add: merge_into_def)
  with invariant show ?thesis
    by blast
qed

theorem accumulated_rules_pairwise_inequivalent_witness:
  "no_equivalent_pair [\<lparr>selector = ''.a.b'', props = [''color: red'']\<rparr>]
   \<and> no_equivalent_pair
        (merge_into [\<lparr>selector = ''.a.b'', props = [''color: red'']\<rparr>] ''.b.a'' [''margin: 0''])
   \<and> map selector
        (merge_into [\<lparr>selector = ''.a.b'', props = [''color: red'']\<rparr>] ''.b.a'' [''margin: 0''])
      = [''.a.b'']
   \<and> no_equivalent_pair
        (merge_into [\<lparr>selector = ''.a.b'', props = [''color: red'']\<rparr>] ''.c'' [''margin: 0''])"
  using accumulated_rules_pairwise_inequivalent
      [of "[\<lparr>selector = ''.a.b'', props = [''color: red'']\<rparr>]" "''.b.a''" "[''margin: 0'']"]
    accumulated_rules_pairwise_inequivalent
      [of "[\<lparr>selector = ''.a.b'', props = [''color: red'']\<rparr>]" "''.c''" "[''margin: 0'']"]
  by (simp add: no_equivalent_pair_def compareSelector_def has_combinator_def is_space_def)

section \<open>Failure of the CSS parser\<close>

lemma style_loop_fails:
  "el \<in> set els \<Longrightarrow> prs (textContent el) = Inl e
     \<Longrightarrow> \<exists>e' el'. el' \<in> set els \<and> prs (textContent el') = Inl e' \<and> style_loop prs els result = Inl e'"
proof (induction els arbitrary: result)
  case Nil
  then show ?case by simp
next
  case (Cons a els)
  show ?case
  proof (cases "prs (textContent a)")
    case (Inl e0)
    then show ?thesis by auto
  next
    case (Inr rules)
    with Cons.prems have "el \<in> set els" by auto
    from Cons.IH [OF this Cons.prems(2), of "walkRules rules result"] Inr
    show ?thesis by auto
  qed
qed

section \<open>Runs that never consult the random source\<close>

lemma reduce_types_no_hash:
  "Hash \<notin> set ts \<Longrightarrow> \<exists>v. \<forall>rnd i. reduce_types cn ident rnd ts name i = Some (v, i)"
proof (induction ts arbitrary: name)
  case Nil
  then show ?case by simp
next
  case (Cons t ts)
  then show ?case by (cases t; cases "name = []") auto
qed

lemma inline_loop_no_hash:
  assumes "Hash \<notin> set (types_of sel)"
  shows "\<exists>result'. \<forall>rnd i. inline_loop sel rnd els result i = Some (result', i)"
proof (induction els arbitrary: result)
  case Nil
  then show ?case by simp
next
  case (Cons el els)
  obtain v where v: "\<And>rnd i.
      generateSelector (attr_or_empty el ''class'') (attr_or_empty el ''id'') sel rnd i = Some (v, i)"
    using reduce_types_no_hash [OF assms] unfolding generateSelector_def by metis
  show ?case
  proof (cases "v = []")
    case True
    with v Cons.IH [of result] show ?thesis by simp
  next
    case False
    with v Cons.IH [of "merge_into result v (formatProps (attributes el ''style''))"]
    show ?thesis by simp
  qed
qed

lemma extractStyles_no_hash:
  assumes "Hash \<notin> set (types_of (selector_opt options))"
  shows "\<exists>out. \<forall>rnd. extractStyles env rnd options = Some out"
proof -
  obtain r where "\<And>rnd. inline_loop (selector_opt options) rnd
      (with_style_attr (htmlParse env (html options))) [] 0 = Some (r, 0)"
    using inline_loop_no_hash [OF assms] by metis
  then show ?thesis
    by (simp add: extractStyles_def Let_def)
qed

text \<open>
  C8. With the extraction from style elements switched on, when the CSS parser throws on
  the content of some style element, the extraction returns no list of rules and the
  pipeline returns no CSS text. Whenever the loop over the styled elements returns (it
  always does when no strategy is \<open>hash\<close>), the extraction ends with an error that the
  parser threw on a style element, and the rules gathered from the style attributes are
  not returned.
\<close>

theorem parser_failure_abandons_extraction:
  assumes "styleTags options"
    and "el \<in> set (style_elements (htmlParse env (html options)))"
    and "parse env (textContent el) = Inl e"
  shows "(\<forall>result. extractStyles env rnd options \<noteq> Some (Inr result))
    \<and> (\<forall>css. extract_css env rnd options \<noteq> Some (Inr css))
    \<and> ((\<exists>result j. inline_loop (selector_opt options) rnd
            (with_style_attr (htmlParse env (html options))) [] 0 = Some (result, j))
         \<or> Hash \<notin> set (types_of (selector_opt options))
        \<longrightarrow> (\<exists>e' el'. el' \<in> set (style_elements (htmlParse env (html options)))
              \<and> parse env (textContent el') = Inl e'
              \<and> extractStyles env rnd options = Some (Inl e')
              \<and> extract_css env rnd options = Some (Inl e')))"
proof -
  let ?doc = "htmlParse env (html options)"
  let ?inl = "inline_loop (selector_opt options) rnd (with_style_attr ?doc) [] 0"
  have fails: "\<exists>e' el'. el' \<in> set (style_elements ?doc) \<and> parse env (textContent el') = Inl e'
      \<and> style_loop (parse env) (style_elements ?doc) r = Inl e'" for r
    using assms(2,3) by (rule style_loop_fails)
  have ex: "extractStyles env rnd options =
      (case ?inl of None \<Rightarrow> None
       | Some (r, _) \<Rightarrow> Some (style_loop (parse env) (style_elements ?doc) r))"
    using assms(1) by (auto simp: extractStyles_def Let_def split: option.splits)
  have no_result: "extractStyles env rnd options \<noteq> Some (Inr result)" for result
  proof (cases ?inl)
    case None
    then show ?thesis by (simp add: ex)
  next
    case (Some p)
    obtain r j where p: "p = (r, j)" by (cases p)
    from fails [of r] Some p show ?thesis by (auto simp: ex)
  qed
  then have no_css: "extract_css env rnd options \<noteq> Some (Inr css)" for css
    by (auto simp: extract_css_def split: option.splits sum.splits)
  have returns: "\<exists>e' el'. el' \<in> set (style_elements ?doc) \<and> parse env (textContent el') = Inl e'
      \<and> extractStyles env rnd options = Some (Inl e')
      \<and> extract_css env rnd options = Some (Inl e')" if "?inl = Some (r, j)" for r j
    using fails [of r] that by (auto simp: ex extract_css_def)
  moreover have "\<exists>r j. ?inl = Some (r, j)" if "Hash \<notin> set (types_of (selector_opt options))"
    using inline_loop_no_hash [OF that] by blast
  ultimately show ?thesis
    using no_result no_css by blast
qed

theorem parser_failure_abandons_extraction_witness:
  "styleTags broken_options
   \<and> \<lparr>attributes = Map.empty, textContent = ''.a {''\<rparr>
       \<in> set (style_elements (htmlParse broken_env (html broken_options)))
   \<and> parse broken_env ''.a {'' = Inl (CssSyntaxError ''Unclosed block'')
   \<and> (\<forall>result. extractStyles broken_env no_draws broken_options \<noteq> Some (Inr result))
   \<and> (\<forall>css. extract_css broken_env no_draws broken_options \<noteq> Some (Inr css))
   \<and> extractStyles broken_env no_draws broken_options = Some (Inl (CssSyntaxError ''Unclosed block''))"
proof -
  have h1: "styleTags broken_options"
    by (simp add: broken_options_def)
  have h2: "\<lparr>attributes = Map.empty, textContent = ''.a {''\<rparr>
      \<in> set (style_elements (htmlParse broken_env (html broken_options)))"
    by (simp add: broken_env_def broken_document_def)
  have h3: "parse broken_env (textContent \<lparr>attributes = Map.empty, textContent = ''.a {''\<rparr>)
      = Inl (CssSyntaxError ''Unclosed block'')"
    by (simp add: broken_env_def)
  have "extractStyles broken_env no_draws broken_options = Some (Inl (CssSyntaxError ''Unclosed block''))"
    by (simp add: extractStyles_def broken_env_def broken_document_def broken_options_def
        generateSelector_def types_of_def attr_or_empty_def)
  then show ?thesis
    using parser_failure_abandons_extraction [OF h1 h2 h3, of no_draws] h1 h2 h3
    by simp
qed

text \<open>
  C10. When no configured strategy is \<open>hash\<close>, the extraction returns, and what it returns
  (the list of rules, or the error of the CSS parser) is the same for every random source:
  two runs on the same configuration give the same selectors in the same order with the
  same properties.
\<close>

theorem extraction_without_hash_is_deterministic:
  assumes "Hash \<notin> set (types_of (selector_opt options))"
  shows "extractStyles env rnd options = extractStyles env rnd' options
    \<and> extractStyles env rnd options \<noteq> None"
  using extractStyles_no_hash [OF assms, of env] by auto

theorem extraction_without_hash_is_deterministic_witness:
  "Hash \<notin> set (types_of (Multiple [Class, Id]))
   \<and> extractStyles (button_env (\<lambda>css. Inr []))  no_draws
        \<lparr>html = button_html, selector_opt = Multiple [Class, Id], styleTags = True, indent = 2\<rparr>
     = extractStyles (button_env (\<lambda>css. Inr [])) (\<lambda>i. ''a1'')
        \<lparr>html = button_html, selector_opt = Multiple [Class, Id], styleTags = True, indent = 2\<rparr>
   \<and> extractStyles (button_env (\<lambda>css. Inr [])) no_draws
        \<lparr>html = button_html, selector_opt = Multiple [Class, Id], styleTags = True, indent = 2\<rparr>
     \<noteq> None"
proof -
  have h: "Hash \<notin> set (types_of (selector_opt
      \<lparr>html = button_html, selector_opt = Multiple [Class, Id], styleTags = True, indent = 2\<rparr>))"
    by (simp add: types_of_def)
  have g: "Hash \<notin> set (types_of (Multiple [Class, Id]))"
    by (simp add: types_of_def)
  show ?thesis
    using extraction_without_hash_is_deterministic
      [OF h, of "button_env (\<lambda>css. Inr [])" no_draws "\<lambda>i. ''a1''"] g
    by blast
qed

section \<open>Selector generation\<close>

lemma reduce_types_keeps_class:
  "formatClass cn \<noteq> [] \<Longrightarrow> name \<noteq> []
     \<Longrightarrow> reduce_types cn ident rnd ts name i = Some (if ts = [] then name else formatClass cn, i)"
  by (induction ts arbitrary: name) auto

lemma reduce_types_class_in_list:
  "formatClass cn \<noteq> [] \<Longrightarrow> Class \<in> set ts \<Longrightarrow> Hash \<notin> set ts
     \<Longrightarrow> reduce_types cn ident rnd ts name i = Some (formatClass cn, i)"
proof (induction ts arbitrary: name)
  case Nil
  then show ?case by simp
next
  case (Cons t ts)
  show ?case
  proof (cases "name \<noteq> [] \<or> t = Class")
    case True
    with Cons.prems(1) show ?thesis
      by (simp add: reduce_types_keeps_class)
  next
    case False
    with Cons.prems have "t = Id" "Class \<in> set ts" "Hash \<notin> set ts"
      by (cases t; auto)+
    with False Cons.IH [OF Cons.prems(1)] show ?thesis by simp
  qed
qed

lemma reduce_types_all_empty:
  "formatClass cn = [] \<Longrightarrow> formatId ident = [] \<Longrightarrow> Hash \<notin> set ts
     \<Longrightarrow> reduce_types cn ident rnd ts [] i = Some ([], i)"
proof (induction ts)
  case Nil
  then show ?case by simp
next
  case (Cons t ts)
  then show ?case by (cases t) auto
qed

text \<open>With the list \<open>[id, class]\<close> an element that has an id and no class gets the empty
  selector: the id-derived selector is non-empty when \<open>class\<close> is met, and is replaced by
  the class-derived one, which is empty.\<close>

lemma id_then_class_without_class:
  "generateSelector [] ''main'' (Multiple [Id, Class]) rnd i = Some ([], i)"
  by (simp add: generateSelector_def types_of_def formatId_def formatClass_def trim_def is_space_def)

text \<open>
  C1, as the code has it. One strategy, \<open>class\<close> or \<open>id\<close>, alone gives its own selector.
  For \<open>[class, id]\<close> an element whose class attribute is not blank gets the class-derived
  selector, an element with an id only gets the id-derived one and an element with neither
  gets the empty selector. For a list that starts with \<open>class\<close> an element whose class
  attribute is not blank gets the class-derived selector whatever follows. For any list
  without \<open>hash\<close> in which \<open>class\<close> occurs, as \<open>[id, class]\<close>, an element whose class
  attribute is not blank gets the class-derived selector, also when it has an id and \<open>id\<close>
  comes first. For any list without \<open>hash\<close> an element with neither a class nor an id
  gets the empty selector.
\<close>

theorem generateSelector_class_takes_precedence:
  "generateSelector cn ident (Single Class) rnd i = Some (formatClass cn, i)
   \<and> generateSelector cn ident (Single Id) rnd i = Some (formatId ident, i)
   \<and> generateSelector cn ident (Multiple [Class, Id]) rnd i
       = Some (if formatClass cn \<noteq> [] then formatClass cn else formatId ident, i)
   \<and> generateSelector [] [] (Multiple [Class, Id]) rnd i = Some ([], i)
   \<and> (formatClass cn \<noteq> [] \<longrightarrow>
        generateSelector cn ident (Multiple (Class # ts)) rnd i = Some (formatClass cn, i))
   \<and> (formatClass cn \<noteq> [] \<and> Class \<in> set ts' \<and> Hash \<notin> set ts' \<longrightarrow>
        generateSelector cn ident (Multiple ts') rnd i = Some (formatClass cn, i))
   \<and> (formatClass cn = [] \<and> formatId ident = [] \<and> Hash \<notin> set ts' \<longrightarrow>
        generateSelector cn ident (Multiple ts') rnd i = Some ([], i))"
proof -
  have "generateSelector [] [] (Multiple [Class, Id]) rnd i = Some ([], i)"
    by (simp add: generateSelector_def types_of_def formatClass_def formatId_def trim_def)
  moreover have "generateSelector cn ident (Multiple (Class # ts)) rnd i = Some (formatClass cn, i)"
    if "formatClass cn \<noteq> []"
    using that reduce_types_keeps_class [OF that that, of ident rnd ts i]
    by (simp add: generateSelector_def types_of_def)
  moreover have "generateSelector cn ident (Multiple ts') rnd i = Some (formatClass cn, i)"
    if "formatClass cn \<noteq> []" "Class \<in> set ts'" "Hash \<notin> set ts'"
    using reduce_types_class_in_list [OF that] by (simp add: generateSelector_def types_of_def)
  moreover have "generateSelector cn ident (Multiple ts') rnd i = Some ([], i)"
    if "formatClass cn = []" "formatId ident = []" "Hash \<notin> set ts'"
    using reduce_types_all_empty [OF that] by (simp add: generateSelector_def types_of_def)
  ultimately show ?thesis
    by (simp add: generateSelector_def types_of_def)
qed

theorem generateSelector_class_takes_precedence_witness:
  "formatClass ''my-class'' \<noteq> [] \<and> Class \<in> set [Id, Class] \<and> Hash \<notin> set [Id, Class]
   \<and> generateSelector ''my-class'' ''my-id'' (Multiple [Id, Class]) no_draws 0 = Some (''.my-class'', 0)
   \<and> generateSelector ''my-class'' ''my-id'' (Multiple [Class, Id]) no_draws 0 = Some (''.my-class'', 0)
   \<and> generateSelector [] ''my-id'' (Multiple [Class, Id]) no_draws 0 = Some (''#my-id'', 0)"
  using generateSelector_class_takes_precedence [of "''my-class''" "''my-id''" no_draws 0 "[Id]" "[Id, Class]"]
    generateSelector_class_takes_precedence [of "[]" "''my-id''" no_draws 0 "[]" "[]"]
  by (simp add: formatClass_def formatId_def trim_def is_space_def)

text \<open>The claim of C1 as it is written fails on the input of the plugin's own test of the
  list \<open>[id, class]\<close>: the strategy \<open>id\<close> alone gives \<open>#myid\<close>, which is not empty, and the
  later strategy \<open>class\<close> changes the result to \<open>.myclass\<close>.\<close>

theorem generateSelector_first_non_empty_counterexample:
  "generateSelector ''myclass'' ''myid'' (Single Id) no_draws 0 = Some (''#myid'', 0)
   \<and> generateSelector ''myclass'' ''myid'' (Multiple [Id, Class]) no_draws 0 = Some (''.myclass'', 0)
   \<and> generateSelector ''myclass'' ''myid'' (Multiple [Id, Class]) no_draws 0
       \<noteq> generateSelector ''myclass'' ''myid'' (Single Id) no_draws 0"
  by (simp add: generateSelector_def types_of_def formatClass_def formatId_def trim_def is_space_def)

section \<open>The hash strategy\<close>

lemma generateHash_returns:
  "\<not> template_test (rnd (i + k)) \<Longrightarrow> \<forall>m<k. template_test (rnd (i + m))
     \<Longrightarrow> generateHash rnd i = Some (rnd (i + k), Suc (i + k))"
proof (induction k arbitrary: i)
  case 0
  then show ?case by (subst generateHash.simps) simp
next
  case (Suc k)
  from Suc.prems(2) have first: "template_test (rnd i)"
    by (metis add.right_neutral zero_less_Suc)
  have "generateHash rnd (Suc i) = Some (rnd (Suc i + k), Suc (Suc i + k))"
  proof (rule Suc.IH)
    show "\<not> template_test (rnd (Suc i + k))"
      using Suc.prems(1) by simp
    show "\<forall>m<k. template_test (rnd (Suc i + m))"
      using Suc.prems(2) by (metis Suc_less_eq add_Suc_shift)
  qed
  with first show ?case
    by (subst generateHash.simps) simp
qed

lemma generateHash_result:
  assumes "generateHash rnd i = Some r"
  shows "\<exists>k. \<not> template_test (rnd (i + k))"
proof (rule generateHash.raw_induct
    [where P = "\<lambda>rnd i r. \<exists>k. \<not> template_test (rnd (i + k))", OF _ assms])
  fix f :: "random_source \<Rightarrow> nat \<Rightarrow> (string \<times> nat) option" and src n out
  assume IH: "\<And>s b y. f s b = Some y \<Longrightarrow> \<exists>k. \<not> template_test (s (b + k))"
    and body: "(let hash = src n in
        if template_test hash then f src (Suc n) else Some (hash, Suc n)) = Some out"
  show "\<exists>k. \<not> template_test (src (n + k))"
  proof (cases "template_test (src n)")
    case True
    with body have "f src (Suc n) = Some out"
      by (simp add: Let_def)
    from IH [OF this] obtain k where "\<not> template_test (src (Suc n + k))"
      by auto
    then have "\<not> template_test (src (n + Suc k))" by simp
    then show ?thesis by blast
  next
    case False
    then have "\<not> template_test (src (n + 0))" by simp
    then show ?thesis by blast
  qed
qed

lemma generateHash_never_returns:
  "\<forall>m. template_test (rnd (i + m)) \<Longrightarrow> generateHash rnd i = None"
  using generateHash_result [of rnd i] by (cases "generateHash rnd i") auto

lemma hash_pattern_dot:
  "h \<noteq> [] \<Longrightarrow> lower_alnum h \<Longrightarrow> \<not> template_test h \<Longrightarrow> hash_pattern (CHR ''.'' # h)"
  by (cases h) (auto simp: hash_pattern_def lower_alnum_def template_test_def)

text \<open>So the loop returns the first draw that does not start with a digit, and when that
  draw is a non-empty string of lowercase letters and digits the selector matches the
  pattern.\<close>

text \<open>
  C7. The hash strategy is to give, for every sequence of values of the random source, a
  selector that matches \<open>^\.[a-z][a-z0-9]*$\<close>, with a token that is not empty. The code
  does not: when \<open>Math.random()\<close> is 0 the draw is the empty string, the test for a leading
  digit fails on it, the loop ends, and the selector is a lone dot. On the element of the
  repository's test of the hash strategy the extraction then returns the selector \<open>.\<close>,
  which the pattern the test asserts does not match.
\<close>

theorem hash_of_zero_draw:
  "generateHash zero_draw_source 0 = Some ([], 1)
   \<and> generateSelector [] [] (Single Hash) zero_draw_source 0 = Some (''.'', 1)
   \<and> \<not> hash_pattern ''.''
   \<and> extractStyles (one_document [padding_element]) zero_draw_source
        \<lparr>html = padding_html, selector_opt = Single Hash, styleTags = False, indent = 2\<rparr>
       = Some (Inr [\<lparr>selector = ''.'', props = [''padding: 5px'']\<rparr>])"
proof -
  have hash: "generateHash zero_draw_source 0 = Some ([], 1)"
    by (subst generateHash.simps) (simp add: zero_draw_source_def template_test_def)
  then have sel: "generateSelector [] [] (Single Hash) zero_draw_source 0 = Some (''.'', 1)"
    by (simp add: generateSelector_def types_of_def)
  have "\<not> hash_pattern ''.''"
    by (simp add: hash_pattern_def)
  moreover have "extractStyles (one_document [padding_element]) zero_draw_source
        \<lparr>html = padding_html, selector_opt = Single Hash, styleTags = False, indent = 2\<rparr>
       = Some (Inr [\<lparr>selector = ''.'', props = [''padding: 5px'']\<rparr>])"
    using sel
    by (simp add: extractStyles_def one_document_def styled_only_def padding_element_def
        attr_or_empty_def merge_into_def formatProps_def trim_def is_space_def)
  ultimately show ?thesis
    using hash sel by blast
qed

section \<open>The property normalizer\<close>












text \<open>A value that holds a colon is split at that colon as well, and a space is put
  after each colon when the pieces are joined.\<close>

lemma formatProps_url:
  "formatProps (Some ''background: url(http://a.b/c.png)'') = [''background: url(http: //a.b/c.png)'']"
  by (simp add: formatProps_def trim_def is_space_def)




section \<open>Repeated declarations\<close>

lemma merge_fold_subset:
  "set ys \<subseteq> set xs \<Longrightarrow> foldl (\<lambda>ps prop. if prop \<in> set ps then ps else ps @ [prop]) xs ys = xs"
  by (induction ys) auto

text \<open>Merging a sorted list with itself gives the same list, and a merge whose first
  list has no repeated entry gives the sorted list of the union, without repetition.\<close>

lemma mergeProps_self: "sorted xs \<Longrightarrow> mergeProps xs xs = xs"
  by (simp add: mergeProps_def merge_fold_subset sort_key_id_if_sorted)

lemma merge_fold_distinct:
  "distinct xs \<Longrightarrow>
     distinct (foldl (\<lambda>ps prop. if prop \<in> set ps then ps else ps @ [prop]) xs ys)
     \<and> set (foldl (\<lambda>ps prop. if prop \<in> set ps then ps else ps @ [prop]) xs ys) = set xs \<union> set ys"
  by (induction ys arbitrary: xs) auto

lemma mergeProps_distinct:
  assumes "distinct xs"
  shows "mergeProps xs ys = sorted_list_of_set (set xs \<union> set ys)"
proof -
  let ?m = "foldl (\<lambda>ps prop. if prop \<in> set ps then ps else ps @ [prop]) xs ys"
  from merge_fold_distinct [OF assms, of ys]
  have d: "distinct ?m" and s: "set ?m = set xs \<union> set ys" by auto
  have "sorted_list_of_set (set ?m) = sort ?m"
    using d by (simp add: sorted_list_of_set_sort_remdups distinct_remdups_id)
  then show ?thesis
    by (simp add: mergeProps_def s)
qed

text \<open>
  C3. The normalized property list of a style text is to be sorted ascending and to hold
  no two identical entries, and merging it with itself is to give the same list. The
  list is sorted (\<open>sorted_formatProps\<close>) and the merge with itself gives the same list
  (\<open>mergeProps_self\<close>), but the code keeps a repeated declaration: for the style text
  \<open>color:red;color:red\<close> the normalized list holds \<open>color: red\<close> twice, the merge of
  that list with itself, which is documented as ensuring no duplicates, holds it twice,
  and the rule extracted from an element with that style attribute holds it twice.
\<close>

theorem formatProps_keeps_repeated_declaration:
  "formatProps (Some ''color:red;color:red'') = [''color: red'', ''color: red'']
   \<and> \<not> distinct (formatProps (Some ''color:red;color:red''))
   \<and> mergeProps (formatProps (Some ''color:red;color:red'')) (formatProps (Some ''color:red;color:red''))
       = [''color: red'', ''color: red'']
   \<and> extractStyles (one_document [repeating_element]) rnd
        \<lparr>html = repeating_html, selector_opt = Single Class, styleTags = False, indent = 2\<rparr>
       = Some (Inr [\<lparr>selector = ''.x'', props = [''color: red'', ''color: red'']\<rparr>])"
proof -
  have fp: "formatProps (Some ''color:red;color:red'') = [''color: red'', ''color: red'']"
    by (simp add: formatProps_def trim_def is_space_def)
  have "extractStyles (one_document [repeating_element]) rnd
        \<lparr>html = repeating_html, selector_opt = Single Class, styleTags = False, indent = 2\<rparr>
       = Some (Inr [\<lparr>selector = ''.x'', props = [''color: red'', ''color: red'']\<rparr>])"
    by (simp add: extractStyles_def one_document_def styled_only_def repeating_element_def
        generateSelector_def types_of_def attr_or_empty_def formatClass_def trim_def is_space_def
        merge_into_def fp)
  then show ?thesis
    by (simp add: fp mergeProps_def)
qed

section \<open>Merging in any order\<close>

text \<open>
  C6. For elements with pairwise equivalent selectors the merged property list is to be
  the same whatever the order in which they are visited. The code does not give that
  when an element repeats a declaration: the element visited first is pushed with its
  normalized list as it is, repetition included, and the merge, documented as ensuring no
  duplicates, keeps the repetition of its first list and only skips entries of the
  second list that are already there. For two elements of the class \<open>x\<close> with the style
  attributes \<open>color:red;color:red\<close> and \<open>margin:0\<close>, the rule holds \<open>color: red\<close>
  twice when the first is visited first and once when it is visited second.
\<close>

theorem extraction_order_changes_properties:
  "extractStyles
      (two_documents repeating_first_html [repeating_element, plain_element]
         [plain_element, repeating_element])
      rnd
      \<lparr>html = repeating_first_html, selector_opt = Single Class, styleTags = False, indent = 2\<rparr>
    = Some (Inr [\<lparr>selector = ''.x'', props = [''color: red'', ''color: red'', ''margin: 0'']\<rparr>])
   \<and> extractStyles
      (two_documents repeating_first_html [repeating_element, plain_element]
         [plain_element, repeating_element])
      rnd
      \<lparr>html = repeating_last_html, selector_opt = Single Class, styleTags = False, indent = 2\<rparr>
    = Some (Inr [\<lparr>selector = ''.x'', props = [''color: red'', ''margin: 0'']\<rparr>])
   \<and> mergeProps [''color: red'', ''color: red''] [''margin: 0'']
       = [''color: red'', ''color: red'', ''margin: 0'']
   \<and> mergeProps [''margin: 0''] [''color: red'', ''color: red''] = [''color: red'', ''margin: 0'']"
  by (simp add: extractStyles_def two_documents_def styled_only_def repeating_first_html_def
      repeating_last_html_def repeating_element_def plain_element_def generateSelector_def
      types_of_def attr_or_empty_def formatClass_def formatProps_def trim_def is_space_def
      merge_into_def mergeProps_def compareSelector_def has_combinator_def)

end
